theory Spec2Isabelle
  imports Main "HOL-Library.Word"
begin

section \<open>Bytes, fixed-width values and exceptions\<close>

text \<open>
  A corpus file is a sequence of bytes. Every field of the format is four bytes wide:
  the ids and counts are C \<open>int\<close>s (format character \<open>i\<close>), the weights are C
  \<open>float\<close>s (format character \<open>f\<close>, type code \<open>'f'\<close>). The byte order is the
  platform's; the model fixes little-endian. A C \<open>float\<close> is identified with its
  32-bit pattern, and a Python float, a C \<open>double\<close>, with its 64-bit pattern: the
  readers only move the four bytes of a weight, and the writer converts each weight it
  is given from \<open>double\<close> to \<open>float\<close>. Ids and counts are Python integers, unbounded
  until they are stored in a C \<open>int\<close>.
\<close>

type_synonym byte = "8 word"
type_synonym f32 = "32 word"
type_synonym f64 = "64 word"

text \<open>
  The exceptions of the library calls the code makes: \<open>struct.error\<close> from
  \<open>Struct.unpack\<close> on a buffer of the wrong size, \<open>EOFError\<close> and \<open>ValueError\<close>
  from \<open>array.fromfile\<close>, \<open>OverflowError\<close> from storing an integer outside the
  range of a C \<open>int\<close> into an \<open>array('i')\<close>.
\<close>

datatype error = StructError | EOFError | ValueError | OverflowError

definition fits_i32 :: "int \<Rightarrow> bool" where
  "fits_i32 x = (- 2147483648 \<le> x \<and> x < 2147483648)"

definition bytes4 :: "nat \<Rightarrow> byte list" where
  "bytes4 v = [word_of_nat v, word_of_nat (v div 256),
               word_of_nat (v div 65536), word_of_nat (v div 16777216)]"

fun le_nat :: "byte list \<Rightarrow> nat" where
  "le_nat [] = 0"
| "le_nat (b # bs) = unat b + 256 * le_nat bs"

definition bytes_i32 :: "int \<Rightarrow> byte list" where
  "bytes_i32 x = bytes4 (nat (x mod 4294967296))"

definition int32_of :: "byte list \<Rightarrow> int" where
  "int32_of bs = (let u = int (le_nat bs) in if u < 2147483648 then u else u - 4294967296)"

definition bytes_f32 :: "f32 \<Rightarrow> byte list" where
  "bytes_f32 w = bytes4 (unat w)"

definition float32_of :: "byte list \<Rightarrow> f32" where
  "float32_of bs = word_of_nat (le_nat bs)"

text \<open>
  The conversion of a \<open>double\<close> to a \<open>float\<close>, which \<open>array('f').append\<close> applies to
  the Python float it is given: IEEE 754 rounding to nearest, ties to even. The sign is
  bit 63, the biased exponent \<open>e\<close> the next 11 bits, the fraction \<open>m\<close> the low 52 bits.
  A finite non-zero double with \<open>e > 0\<close> is \<open>(2^52 + m) * 2^(e - 1075)\<close>. The pattern
  of a float without its sign grows with the magnitude, from the subnormals
  \<open>n * 2^-149\<close> with pattern \<open>n\<close> on, so the rounded significand is added to the
  exponent's share of the pattern and a carry lands in the exponent; from
  \<open>2139095040\<close>, the pattern of infinity, on, the result is infinity. Doubles with
  \<open>e = 0\<close> are below half the smallest float and give zero. A NaN keeps its sign and
  the high bits of its payload and becomes quiet, as on x86-64.
\<close>

definition round_shift :: "nat \<Rightarrow> nat \<Rightarrow> nat" where
  "round_shift M sh =
     (let q = M div 2 ^ sh; r = M mod 2 ^ sh
      in if 2 ^ sh < 2 * r \<or> (2 * r = 2 ^ sh \<and> odd q) then q + 1 else q)"

definition c_float :: "f64 \<Rightarrow> f32" where
  "c_float d =
     (let s = unat d div 2 ^ 63; e = unat d div 2 ^ 52 mod 2048; m = unat d mod 2 ^ 52
      in word_of_nat (s * 2 ^ 31 +
           (if e = 2047 then (if m = 0 then 2139095040 else 2143289344 + m div 2 ^ 29 mod 2 ^ 22)
            else if e = 0 then 0
            else if e < 897 then round_shift (2 ^ 52 + m) (926 - e)
            else min 2139095040 ((e - 897) * 2 ^ 23 + round_shift (2 ^ 52 + m) 29))))"

text \<open>
  The Python float that an item of an \<open>array('f')\<close> or an \<open>'f'\<close> field of
  \<open>struct.unpack\<close> is read as: the \<open>double\<close> of the same value. A normal float
  \<open>(2^23 + m) * 2^(e - 150)\<close> keeps its fraction, shifted; a subnormal float
  \<open>m * 2^-149\<close> is a normal double, with the leading bit of \<open>m\<close> as its hidden bit.
\<close>

fun bit_length :: "nat \<Rightarrow> nat" where
  "bit_length n = (if n = 0 then 0 else Suc (bit_length (n div 2)))"

declare bit_length.simps [simp del]

definition py_float :: "f32 \<Rightarrow> f64" where
  "py_float x =
     (let s = unat x div 2 ^ 31; e = unat x div 2 ^ 23 mod 256; m = unat x mod 2 ^ 23
      in word_of_nat (s * 2 ^ 63 +
           (if e = 255
            then (if m = 0 then 2047 * 2 ^ 52 else 2047 * 2 ^ 52 + 2 ^ 51 + (m mod 2 ^ 22) * 2 ^ 29)
            else if e = 0
            then (if m = 0 then 0
                  else (let k = bit_length m - 1
                        in (k + 874) * 2 ^ 52 + (m - 2 ^ k) * 2 ^ (52 - k)))
            else (e + 896) * 2 ^ 52 + m * 2 ^ 29)))"

text \<open>
  A file object opened for reading is the list of bytes not yet read; \<open>f.read(n)\<close>
  returns at most \<open>n\<close> bytes, fewer at the end of the file, and advances the position.
\<close>

definition f_read :: "nat \<Rightarrow> byte list \<Rightarrow> byte list \<times> byte list" where
  "f_read n f = (take n f, drop n f)"

text \<open>
  A generator's run is the list of the items it yielded, followed by the exception that
  ended it, if one did. Items yielded before an exception have reached the caller.
\<close>

type_synonym 'a gen = "'a list \<times> error option"

definition raise :: "error \<Rightarrow> 'a gen" where
  "raise e = ([], Some e)"

definition yield :: "'a \<Rightarrow> 'a gen \<Rightarrow> 'a gen" where
  "yield x g = (x # fst g, snd g)"

section \<open>struct\_corpus.py: the interleaved readers\<close>

text \<open>
  \<open>Struct(fmt).unpack(buf)\<close> raises \<open>struct.error\<close> unless \<open>len(buf)\<close> is the size
  of the format: 12 for \<open>'i i i'\<close>, 8 for \<open>'i i'\<close> and \<open>'i f'\<close>.
\<close>

definition unpack_iii :: "byte list \<Rightarrow> error + int \<times> int \<times> int" where
  "unpack_iii b =
     (if length b \<noteq> 12 then Inl StructError
      else Inr (int32_of (take 4 b), int32_of (take 4 (drop 4 b)), int32_of (take 4 (drop 8 b))))"

definition unpack_ii :: "byte list \<Rightarrow> error + int \<times> int" where
  "unpack_ii b =
     (if length b \<noteq> 8 then Inl StructError
      else Inr (int32_of (take 4 b), int32_of (take 4 (drop 4 b))))"

definition unpack_if :: "byte list \<Rightarrow> error + int \<times> f32" where
  "unpack_if b =
     (if length b \<noteq> 8 then Inl StructError
      else Inr (int32_of (take 4 b), float32_of (take 4 (drop 4 b))))"

text \<open>
  \<open>Struct('i f' * doc_length)\<close>: the format string repeated \<open>doc_length\<close> times (the
  empty format when \<open>doc_length\<close> is not positive), of size \<open>8 * doc_length\<close>. Its
  \<open>unpack\<close> returns the flat tuple \<open>(t1, v1, t2, v2, ...)\<close>; the loop of
  \<open>MmReader2.__iter__\<close> consumes it two fields at a time (\<open>for termid in it\<close>,
  \<open>value = next(it)\<close>), so the model keeps the fields in pairs.
\<close>

fun fields_if :: "nat \<Rightarrow> byte list \<Rightarrow> (int \<times> f32) list" where
  "fields_if 0 b = []"
| "fields_if (Suc n) b =
     (int32_of (take 4 b), float32_of (take 4 (drop 4 b))) # fields_if n (drop 8 b)"

definition unpack_if_times :: "int \<Rightarrow> byte list \<Rightarrow> error + (int \<times> f32) list" where
  "unpack_if_times doc_length b =
     (if length b \<noteq> 8 * nat doc_length then Inl StructError
      else Inr (fields_if (nat doc_length) b))"

text \<open>
  The three reader classes have the same attributes. \<open>input\<close> is the content of the
  file the reader was given; every \<open>smart_open\<close> reads it from the start.
\<close>

record reader =
  input :: "byte list"
  transposed :: bool
  num_docs :: int
  num_terms :: int
  num_nnz :: int

definition read_headers :: "byte list \<Rightarrow> error + int \<times> int \<times> int" where
  "read_headers inp = (let (b, f) = f_read 12 inp in unpack_iii b)"

text \<open>\<open>skip_headers\<close> returns the file object after the header, or the exception.\<close>

definition skip_headers :: "byte list \<Rightarrow> error + byte list" where
  "skip_headers input_file =
     (let (b, f) = f_read 12 input_file in
      case unpack_iii b of Inl e \<Rightarrow> Inl e | Inr _ \<Rightarrow> Inr f)"

definition MmReader1_init :: "byte list \<Rightarrow> bool \<Rightarrow> error + reader" where
  "MmReader1_init inp tr =
     (case read_headers inp of
        Inl e \<Rightarrow> Inl e
      | Inr (nd, nt, nnz) \<Rightarrow>
          Inr \<lparr>input = inp, transposed = tr, num_docs = nd, num_terms = nt, num_nnz = nnz\<rparr>)"

text \<open>
  The inner loop of \<open>MmReader1.__iter__\<close>, \<open>for _ in range(doc_length)\<close>: its state is
  the file position, the variable \<open>docid\<close> (which the swap assigns to) and the
  \<open>document\<close> list built so far.
\<close>

fun entries_loop1 ::
  "bool \<Rightarrow> nat \<Rightarrow> byte list \<Rightarrow> int \<Rightarrow> (int \<times> f32) list
     \<Rightarrow> error + byte list \<times> int \<times> (int \<times> f32) list" where
  "entries_loop1 tr 0 f docid document = Inr (f, docid, document)"
| "entries_loop1 tr (Suc n) f docid document =
     (let (b, f') = f_read 8 f in
      case unpack_if b of
        Inl e \<Rightarrow> Inl e
      | Inr (termid, value) \<Rightarrow>
          (let (termid', docid') = (if \<not> tr then (docid, termid) else (termid, docid))
           in entries_loop1 tr n f' docid' (document @ [(termid', value)])))"

text \<open>The outer loop, \<open>for _ in range(self.num_docs)\<close>; \<open>range\<close> of a negative
  number is empty, which \<open>nat\<close> gives.\<close>

fun docs_loop1 :: "bool \<Rightarrow> nat \<Rightarrow> byte list \<Rightarrow> (int \<times> f32) list gen" where
  "docs_loop1 tr 0 f = ([], None)"
| "docs_loop1 tr (Suc n) f =
     (let (b, f') = f_read 8 f in
      case unpack_ii b of
        Inl e \<Rightarrow> raise e
      | Inr (docid, doc_length) \<Rightarrow>
          (case entries_loop1 tr (nat doc_length) f' docid [] of
             Inl e \<Rightarrow> raise e
           | Inr (f'', docid', document) \<Rightarrow> yield document (docs_loop1 tr n f'')))"

definition MmReader1_iter :: "reader \<Rightarrow> (int \<times> f32) list gen" where
  "MmReader1_iter self =
     (case skip_headers (input self) of
        Inl e \<Rightarrow> raise e
      | Inr f \<Rightarrow> docs_loop1 (transposed self) (nat (num_docs self)) f)"

definition MmReader2_init :: "byte list \<Rightarrow> bool \<Rightarrow> error + reader" where
  "MmReader2_init inp tr =
     (case read_headers inp of
        Inl e \<Rightarrow> Inl e
      | Inr (nd, nt, nnz) \<Rightarrow>
          Inr \<lparr>input = inp, transposed = tr, num_docs = nd, num_terms = nt, num_nnz = nnz\<rparr>)"

text \<open>The loop of \<open>MmReader2.__iter__\<close> over the unpacked fields of one document.\<close>

fun entries_loop2 ::
  "bool \<Rightarrow> (int \<times> f32) list \<Rightarrow> int \<Rightarrow> (int \<times> f32) list \<Rightarrow> int \<times> (int \<times> f32) list" where
  "entries_loop2 tr [] docid document = (docid, document)"
| "entries_loop2 tr ((termid, value) # doc_terms) docid document =
     (let (termid', docid') = (if \<not> tr then (docid, termid) else (termid, docid))
      in entries_loop2 tr doc_terms docid' (document @ [(termid', value)]))"

fun docs_loop2 :: "bool \<Rightarrow> nat \<Rightarrow> byte list \<Rightarrow> (int \<times> f32) list gen" where
  "docs_loop2 tr 0 f = ([], None)"
| "docs_loop2 tr (Suc n) f =
     (let (b, f') = f_read 8 f in
      case unpack_ii b of
        Inl e \<Rightarrow> raise e
      | Inr (docid, doc_length) \<Rightarrow>
          (let (b', f'') = f_read (8 * nat doc_length) f' in
           case unpack_if_times doc_length b' of
             Inl e \<Rightarrow> raise e
           | Inr doc_terms \<Rightarrow>
               (let (docid', document) = entries_loop2 tr doc_terms docid []
                in yield document (docs_loop2 tr n f''))))"

definition MmReader2_iter :: "reader \<Rightarrow> (int \<times> f32) list gen" where
  "MmReader2_iter self =
     (case skip_headers (input self) of
        Inl e \<Rightarrow> raise e
      | Inr f \<Rightarrow> docs_loop2 (transposed self) (nat (num_docs self)) f)"

section \<open>python\_array.py: the columnar reader and writer\<close>

text \<open>
  \<open>a.fromfile(f, n)\<close> on an empty array \<open>a\<close> of four-byte items: \<open>ValueError\<close> for a
  negative count; it reads \<open>4 * n\<close> bytes, raises \<open>ValueError\<close> when what it got is
  not a whole number of items and \<open>EOFError\<close> when it is fewer than \<open>n\<close> items. The
  result is the array's items and the file object after the read.
\<close>

fun items :: "(byte list \<Rightarrow> 'a) \<Rightarrow> nat \<Rightarrow> byte list \<Rightarrow> 'a list" where
  "items conv 0 b = []"
| "items conv (Suc n) b = conv (take 4 b) # items conv n (drop 4 b)"

definition fromfile :: "(byte list \<Rightarrow> 'a) \<Rightarrow> int \<Rightarrow> byte list \<Rightarrow> error + 'a list \<times> byte list" where
  "fromfile conv n f =
     (if n < 0 then Inl ValueError
      else (let (b, f') = f_read (4 * nat n) f in
            if length b mod 4 \<noteq> 0 then Inl ValueError
            else if length b \<noteq> 4 * nat n then Inl EOFError
            else Inr (items conv (nat n) b, f')))"

definition read_headers_array :: "byte list \<Rightarrow> error + int \<times> int \<times> int" where
  "read_headers_array inp =
     (case fromfile int32_of 3 inp of
        Inl e \<Rightarrow> Inl e
      | Inr (header, f) \<Rightarrow>
          (case header of
             [nd, nt, nnz] \<Rightarrow> Inr (nd, nt, nnz)
           | _ \<Rightarrow> Inl ValueError))"

definition skip_headers_array :: "byte list \<Rightarrow> error + byte list" where
  "skip_headers_array input_file =
     (case fromfile int32_of 3 input_file of Inl e \<Rightarrow> Inl e | Inr (header, f) \<Rightarrow> Inr f)"

definition MmReaderArray_init :: "byte list \<Rightarrow> bool \<Rightarrow> error + reader" where
  "MmReaderArray_init inp tr =
     (case read_headers_array inp of
        Inl e \<Rightarrow> Inl e
      | Inr (nd, nt, nnz) \<Rightarrow>
          Inr \<lparr>input = inp, transposed = tr, num_docs = nd, num_terms = nt, num_nnz = nnz\<rparr>)"

text \<open>
  The loop of \<open>MmReaderArray.__iter__\<close>. The unpacking assignment
  \<open>docid, doc_length = doc_header\<close> raises \<open>ValueError\<close> unless the array has two
  items. The loop does not read \<open>self.transposed\<close>.
\<close>

fun docs_loop_array :: "nat \<Rightarrow> byte list \<Rightarrow> (int \<times> f32) list gen" where
  "docs_loop_array 0 f = ([], None)"
| "docs_loop_array (Suc n) f =
     (case fromfile int32_of 2 f of
        Inl e \<Rightarrow> raise e
      | Inr (doc_header, f1) \<Rightarrow>
          (case doc_header of
             [docid, doc_length] \<Rightarrow>
               (case fromfile int32_of doc_length f1 of
                  Inl e \<Rightarrow> raise e
                | Inr (termids, f2) \<Rightarrow>
                    (case fromfile float32_of doc_length f2 of
                       Inl e \<Rightarrow> raise e
                     | Inr (values, f3) \<Rightarrow>
                         yield (zip termids values) (docs_loop_array n f3)))
           | _ \<Rightarrow> raise ValueError))"

definition MmReaderArray_iter :: "reader \<Rightarrow> (int \<times> f32) list gen" where
  "MmReaderArray_iter self =
     (case skip_headers_array (input self) of
        Inl e \<Rightarrow> raise e
      | Inr f \<Rightarrow> docs_loop_array (nat (num_docs self)) f)"

text \<open>
  The corpus given to \<open>save_corpus\<close>: an object with the three statistics as attributes,
  whose iteration yields the documents, each a list of \<open>(termid, value)\<close> pairs of a
  Python integer and a Python float.
\<close>

record corpus =
  corpus_num_docs :: int
  corpus_num_terms :: int
  corpus_num_nnz :: int
  corpus_docs :: "(int \<times> f64) list list"

text \<open>The destination: the bytes written to it so far and whether it has been closed.\<close>

record ostream =
  written :: "byte list"
  closed :: bool

definition f_write :: "byte list \<Rightarrow> ostream \<Rightarrow> ostream" where
  "f_write b f = f\<lparr>written := written f @ b\<rparr>"

definition f_close :: "ostream \<Rightarrow> ostream" where
  "f_close f = f\<lparr>closed := True\<rparr>"

text \<open>\<open>array.array("i", xs)\<close> raises \<open>OverflowError\<close> when an item is out of a C
  \<open>int\<close>'s range; \<open>tofile\<close> writes the items' bytes.\<close>

definition array_i :: "int list \<Rightarrow> error + int list" where
  "array_i xs = (if list_all fits_i32 xs then Inr xs else Inl OverflowError)"

definition tofile_i :: "int list \<Rightarrow> ostream \<Rightarrow> ostream" where
  "tofile_i a f = f_write (concat (map bytes_i32 a)) f"

definition tofile_f :: "f32 list \<Rightarrow> ostream \<Rightarrow> ostream" where
  "tofile_f a f = f_write (concat (map bytes_f32 a)) f"

text \<open>
  The loop \<open>for (termid, value) in doc\<close> that appends to the two arrays:
  \<open>termids.append\<close> raises \<open>OverflowError\<close> for an integer out of range, and
  \<open>values.append\<close> stores the weight converted to a C \<open>float\<close>.
\<close>

fun append_loop :: "(int \<times> f64) list \<Rightarrow> int list \<Rightarrow> f32 list \<Rightarrow> error + int list \<times> f32 list" where
  "append_loop [] termids values = Inr (termids, values)"
| "append_loop ((termid, value) # doc) termids values =
     (if fits_i32 termid then append_loop doc (termids @ [termid]) (values @ [c_float value])
      else Inl OverflowError)"

text \<open>The loop \<open>for (docid, doc) in enumerate(corpus)\<close>, from position \<open>docid\<close> on.\<close>

fun write_docs :: "nat \<Rightarrow> (int \<times> f64) list list \<Rightarrow> ostream \<Rightarrow> ostream \<times> error option" where
  "write_docs docid [] f = (f, None)"
| "write_docs docid (doc # rest) f =
     (let doc_length = int (length doc) in
      case array_i [int docid, doc_length] of
        Inl e \<Rightarrow> (f, Some e)
      | Inr doc_header \<Rightarrow>
          (let f1 = tofile_i doc_header f in
           case append_loop doc [] [] of
             Inl e \<Rightarrow> (f1, Some e)
           | Inr (termids, values) \<Rightarrow>
               write_docs (Suc docid) rest (tofile_f values (tofile_i termids f1))))"

text \<open>
  \<open>save_corpus\<close> returns the destination as it leaves it and the exception raised, if
  any. \<open>f.close()\<close> is the last statement of the function body.
\<close>

definition save_corpus :: "corpus \<Rightarrow> ostream \<times> error option" where
  "save_corpus corpus =
     (let f = \<lparr>written = [], closed = False\<rparr> in
      case array_i [corpus_num_docs corpus, corpus_num_terms corpus, corpus_num_nnz corpus] of
        Inl e \<Rightarrow> (f, Some e)
      | Inr header \<Rightarrow>
          (case write_docs 0 (corpus_docs corpus) (tofile_i header f) of
             (f', Some e) \<Rightarrow> (f', Some e)
           | (f', None) \<Rightarrow> (f_close f', None)))"

section \<open>Reading a whole file\<close>

text \<open>
  What the benchmark does with a reader class and a file: construct the reader, which
  reads the header, then iterate over it once.
\<close>

definition MmReader1_pass :: "byte list \<Rightarrow> bool \<Rightarrow> (int \<times> f32) list gen" where
  "MmReader1_pass inp tr =
     (case MmReader1_init inp tr of Inl e \<Rightarrow> raise e | Inr self \<Rightarrow> MmReader1_iter self)"

definition MmReader2_pass :: "byte list \<Rightarrow> bool \<Rightarrow> (int \<times> f32) list gen" where
  "MmReader2_pass inp tr =
     (case MmReader2_init inp tr of Inl e \<Rightarrow> raise e | Inr self \<Rightarrow> MmReader2_iter self)"

definition MmReaderArray_pass :: "byte list \<Rightarrow> bool \<Rightarrow> (int \<times> f32) list gen" where
  "MmReaderArray_pass inp tr =
     (case MmReaderArray_init inp tr of Inl e \<Rightarrow> raise e | Inr self \<Rightarrow> MmReaderArray_iter self)"

section \<open>Well-formed files\<close>

text \<open>
  The file format, as the readers consume it and \<open>save_corpus\<close> writes it: a 12-byte
  header whose first field is the number of documents, then that many records and
  nothing else. A record is an 8-byte sub-header \<open>(doc_id, doc_length)\<close> followed by
  \<open>doc_length\<close> entries of 8 bytes: the term ids and the weights, interleaved or in
  two columns. Both layouts take the same space, so one predicate describes the
  well-formed files of either. It constrains the two counts and the sizes only.
\<close>

definition record_size :: "byte list \<Rightarrow> nat" where
  "record_size f = 8 + 8 * nat (int32_of (take 4 (drop 4 f)))"

fun well_formed_records :: "nat \<Rightarrow> byte list \<Rightarrow> bool" where
  "well_formed_records 0 f = (f = [])"
| "well_formed_records (Suc n) f =
     (8 \<le> length f \<and> 0 \<le> int32_of (take 4 (drop 4 f)) \<and> record_size f \<le> length f \<and>
      well_formed_records n (drop (record_size f) f))"

definition well_formed :: "byte list \<Rightarrow> bool" where
  "well_formed f =
     (12 \<le> length f \<and> 0 \<le> int32_of (take 4 f) \<and>
      well_formed_records (nat (int32_of (take 4 f))) (drop 12 f))"

section \<open>Notions used to state the properties\<close>

text \<open>
  The readers do not use the definitions of this section; they serve to say what a pass
  returns. \<open>records n f\<close> cuts a stream of \<open>n\<close> records into the records' bytes, and
  \<open>records_before n k f\<close> counts the records that end at or before byte offset \<open>k\<close>
  of the stream: the record that spans offset \<open>k\<close> is the next one.
\<close>

fun records :: "nat \<Rightarrow> byte list \<Rightarrow> byte list list" where
  "records 0 f = []"
| "records (Suc n) f = take (record_size f) f # records n (drop (record_size f) f)"

fun records_before :: "nat \<Rightarrow> nat \<Rightarrow> byte list \<Rightarrow> nat" where
  "records_before 0 k f = 0"
| "records_before (Suc n) k f =
     (if k < record_size f then 0
      else Suc (records_before n (k - record_size f) (drop (record_size f) f)))"

text \<open>The same count for a whole file, whose records start after the 12-byte header.\<close>

definition complete_records :: "byte list \<Rightarrow> nat \<Rightarrow> nat" where
  "complete_records f k =
     (if k < 12 then 0 else records_before (nat (int32_of (take 4 f))) (k - 12) (drop 12 f))"

text \<open>
  The document that the interleaved readers, and the columnar reader, build from the bytes
  of one record.
\<close>

definition interleaved_doc :: "bool \<Rightarrow> byte list \<Rightarrow> (int \<times> f32) list" where
  "interleaved_doc tr r =
     snd (entries_loop2 tr (fields_if (nat (int32_of (take 4 (drop 4 r)))) (drop 8 r))
            (int32_of (take 4 r)) [])"

definition columnar_doc :: "byte list \<Rightarrow> (int \<times> f32) list" where
  "columnar_doc r =
     (let n = nat (int32_of (take 4 (drop 4 r)))
      in zip (items int32_of n (drop 8 r)) (items float32_of n (drop (8 + 4 * n) r)))"

text \<open>
  The exception of \<open>array.fromfile\<close> when a file of four-byte items ends at byte offset
  \<open>k\<close>, before the items asked for: \<open>ValueError\<close> inside an item, \<open>EOFError\<close>
  between two items.
\<close>

definition short_read :: "nat \<Rightarrow> error" where
  "short_read k = (if 4 dvd k then EOFError else ValueError)"

text \<open>
  A document as \<open>save_corpus\<close> stores it, with each weight converted to a C
  \<open>float\<close>; a document of a reader as the Python values its items hold; and the
  corpora whose weights are floats already, which the two conversions give back.
\<close>

definition stored_doc :: "(int \<times> f64) list \<Rightarrow> (int \<times> f32) list" where
  "stored_doc doc = map (\<lambda>(termid, value). (termid, c_float value)) doc"

definition python_doc :: "(int \<times> f32) list \<Rightarrow> (int \<times> f64) list" where
  "python_doc doc = map (\<lambda>(termid, value). (termid, py_float value)) doc"

definition float_weights :: "corpus \<Rightarrow> bool" where
  "float_weights c =
     (\<forall>doc \<in> set (corpus_docs c). \<forall>(termid, value) \<in> set doc. py_float (c_float value) = value)"

text \<open>
  The corpora \<open>save_corpus\<close> can store: every statistic, position, length and term id
  fits a C \<open>int\<close>. The bytes it writes for the documents from position \<open>docid\<close> on.
\<close>

definition storable :: "corpus \<Rightarrow> bool" where
  "storable c =
     (fits_i32 (corpus_num_docs c) \<and> fits_i32 (corpus_num_terms c) \<and>
      fits_i32 (corpus_num_nnz c) \<and> length (corpus_docs c) \<le> 2147483648 \<and>
      (\<forall>doc \<in> set (corpus_docs c).
         length doc < 2147483648 \<and> (\<forall>(termid, value) \<in> set doc. fits_i32 termid)))"

fun columnar_records :: "nat \<Rightarrow> (int \<times> f64) list list \<Rightarrow> byte list" where
  "columnar_records docid [] = []"
| "columnar_records docid (doc # rest) =
     (bytes_i32 (int docid) @ bytes_i32 (int (length doc))) @
     concat (map bytes_i32 (map fst doc)) @
     concat (map bytes_f32 (map snd (stored_doc doc))) @
     columnar_records (Suc docid) rest"

section \<open>Example files and corpora\<close>

text \<open>
  Two documents, the first with sub-header id 7 and the entries \<open>(1, 2.5)\<close> and
  \<open>(2, 1.0)\<close>, the second with id 9 and no entry; the header is \<open>(2, 3, 3)\<close>. The
  weights 2.5, 1.0 and 4.0 have, as C floats, the patterns 1075838976, 1065353216 and
  1082130432.
\<close>

definition interleaved_example :: "byte list" where
  "interleaved_example =
     [2,0,0,0, 3,0,0,0, 3,0,0,0,
      7,0,0,0, 2,0,0,0,  1,0,0,0, 0,0,32,64,  2,0,0,0, 0,0,128,63,
      9,0,0,0, 0,0,0,0]"

definition columnar_example :: "byte list" where
  "columnar_example =
     [2,0,0,0, 3,0,0,0, 3,0,0,0,
      7,0,0,0, 2,0,0,0,  1,0,0,0, 2,0,0,0,  0,0,32,64, 0,0,128,63,
      9,0,0,0, 0,0,0,0]"

text \<open>
  Two streams of records: one record with id 7 and the entry \<open>(1, 2.5)\<close>; a record
  with id 9 and no entry followed by a record with id 4 and the entry \<open>(2, 1.0)\<close>. A
  record with one entry has the same bytes in both layouts.
\<close>

definition one_entry_record :: "byte list" where
  "one_entry_record = [7,0,0,0, 1,0,0,0,  1,0,0,0, 0,0,32,64]"

definition empty_then_one_entry :: "byte list" where
  "empty_then_one_entry = [9,0,0,0, 0,0,0,0,  4,0,0,0, 1,0,0,0,  2,0,0,0, 0,0,128,63]"

text \<open>
  As Python floats, 2.5, 1.0 and 4.0 have the patterns 4612811918334230528,
  4607182418800017408 and 4616189618054758400, and 0.1 has 4591870180066957722. The
  first corpus is the specification's example scenario; the second has the same
  documents under a header that declares one document; the third has the weight 0.1,
  which no float equals; the fourth has a term id one above the largest C \<open>int\<close>.
\<close>

definition corpus_example :: corpus where
  "corpus_example = \<lparr>corpus_num_docs = 2, corpus_num_terms = 3, corpus_num_nnz = 3,
     corpus_docs = [[(1, 4612811918334230528)],
                    [(0, 4607182418800017408), (2, 4616189618054758400)]]\<rparr>"

definition corpus_miscounted :: corpus where
  "corpus_miscounted = \<lparr>corpus_num_docs = 1, corpus_num_terms = 3, corpus_num_nnz = 3,
     corpus_docs = [[(1, 4612811918334230528)],
                    [(0, 4607182418800017408), (2, 4616189618054758400)]]\<rparr>"

definition corpus_tenth :: corpus where
  "corpus_tenth = \<lparr>corpus_num_docs = 1, corpus_num_terms = 2, corpus_num_nnz = 1,
     corpus_docs = [[(1, 4591870180066957722)]]\<rparr>"

definition corpus_overflowing :: corpus where
  "corpus_overflowing = \<lparr>corpus_num_docs = 1, corpus_num_terms = 1, corpus_num_nnz = 1,
     corpus_docs = [[(2147483648, 4612811918334230528)]]\<rparr>"

section \<open>Auxiliary lemmas\<close>

subsection \<open>Encoding and decoding of the fields\<close>

lemma length_bytes4: "length (bytes4 v) = 4"
  by (simp add: bytes4_def)

lemma mod_split_256: "(v::nat) mod (256 * c) = v mod 256 + 256 * ((v div 256) mod c)"
  by (simp add: mod_mult2_eq)

lemma le_nat_bytes4: "le_nat (bytes4 v) = v mod 4294967296"
proof -
  have a: "le_nat (bytes4 v) = v mod 256 + 256 * ((v div 256) mod 256 + 256 * ((v div 65536) mod 256 + 256 * ((v div 16777216) mod 256)))"
    by (simp add: bytes4_def unat_of_nat)
  have d2: "v div 65536 = v div 256 div 256"
    by (simp add: div_mult2_eq [symmetric])
  have d3: "v div 16777216 = v div 256 div 256 div 256"
    by (simp add: div_mult2_eq [symmetric])
  have s1: "v mod 4294967296 = v mod 256 + 256 * ((v div 256) mod 16777216)"
    using mod_split_256 [of v 16777216] by simp
  have s2: "(v div 256) mod 16777216 = (v div 256) mod 256 + 256 * ((v div 256 div 256) mod 65536)"
    using mod_split_256 [of "v div 256" 65536] by simp
  have s3: "(v div 256 div 256) mod 65536 =
      (v div 256 div 256) mod 256 + 256 * ((v div 256 div 256 div 256) mod 256)"
    using mod_split_256 [of "v div 256 div 256" 256] by simp
  show ?thesis
    by (simp only: a d2 d3 s1 s2 s3)
qed

lemma length_bytes_i32 [simp]: "length (bytes_i32 x) = 4"
  by (simp add: bytes_i32_def length_bytes4)

lemma length_bytes_f32 [simp]: "length (bytes_f32 w) = 4"
  by (simp add: bytes_f32_def length_bytes4)

lemma int32_of_bytes_i32: "fits_i32 x \<Longrightarrow> int32_of (bytes_i32 x) = x"
proof -
  assume "fits_i32 x"
  then have r: "- 2147483648 \<le> x" "x < 2147483648" by (simp_all add: fits_i32_def)
  have u: "int (le_nat (bytes_i32 x)) = x mod 4294967296"
    by (simp add: bytes_i32_def le_nat_bytes4)
  show ?thesis
  proof (cases "0 \<le> x")
    case True
    with r have "x mod 4294967296 = x" by simp
    with u r show ?thesis by (simp add: int32_of_def)
  next
    case False
    with r have "x mod 4294967296 = x + 4294967296"
      using mod_pos_pos_trivial [of "x + 4294967296" 4294967296] by simp
    with u r False show ?thesis by (simp add: int32_of_def)
  qed
qed

lemma float32_of_bytes_f32: "float32_of (bytes_f32 w) = w"
proof -
  have "unat w < 2 ^ 32" using unsigned_less [of w] by simp
  then have "unat w mod 4294967296 = unat w" by simp
  then show ?thesis by (simp add: float32_of_def bytes_f32_def le_nat_bytes4)
qed

subsection \<open>The struct readers\<close>

lemma unpack_if_take:
  "unpack_if (take 8 f) =
     (if length f < 8 then Inl StructError
      else Inr (int32_of (take 4 f), float32_of (take 4 (drop 4 f))))"
  by (auto simp: unpack_if_def min_def take_drop)

lemma unpack_ii_take:
  "unpack_ii (take 8 f) =
     (if length f < 8 then Inl StructError
      else Inr (int32_of (take 4 f), int32_of (take 4 (drop 4 f))))"
  by (auto simp: unpack_ii_def min_def take_drop)

lemma fields_if_take: "8 * n \<le> k \<Longrightarrow> fields_if n (take k f) = fields_if n f"
proof (induction n arbitrary: k f)
  case 0
  show ?case by simp
next
  case (Suc n)
  then have k: "8 \<le> k" "8 * n \<le> k - 8" by simp_all
  have "fields_if n (drop 8 (take k f)) = fields_if n (drop 8 f)"
    using Suc.IH [OF k(2), of "drop 8 f"] by (simp add: drop_take)
  with k show ?case by (simp add: take_drop min_def)
qed

lemma entries_loop1_eq:
  "entries_loop1 tr n f docid document =
     (if 8 * n \<le> length f
      then (case entries_loop2 tr (fields_if n f) docid document of
              (docid', document') \<Rightarrow> Inr (drop (8 * n) f, docid', document'))
      else Inl StructError)"
proof (induction n arbitrary: f docid document)
  case 0
  show ?case by simp
next
  case (Suc n)
  show ?case
  proof (cases "length f < 8")
    case True
    then show ?thesis by (simp add: f_read_def unpack_if_def)
  next
    case False
    then show ?thesis
      by (simp add: f_read_def unpack_if_take Suc.IH split: prod.splits) (auto simp: add.commute)
  qed
qed

lemma docs_loop2_eq: "docs_loop2 tr n f = docs_loop1 tr n f"
proof (induction n arbitrary: f)
  case 0
  show ?case by simp
next
  case (Suc n)
  show ?case
  proof (cases "length f < 8")
    case True
    then show ?thesis by (simp add: f_read_def unpack_ii_def)
  next
    case False
    then show ?thesis
      by (auto simp: f_read_def unpack_ii_take unpack_if_times_def entries_loop1_eq Suc.IH
          fields_if_take min_def split: prod.splits)
  qed
qed

subsection \<open>The record loops on whole and truncated streams\<close>

lemma record_size_ge: "8 \<le> record_size f"
  by (simp add: record_size_def)

lemma sub_header_take:
  "8 \<le> k \<Longrightarrow> take 4 (drop 4 (take k f)) = take 4 (drop 4 f)"
  "8 \<le> k \<Longrightarrow> take 4 (take k f) = take 4 f"
  by (simp_all add: drop_take min_def)

lemma record_size_take: "8 \<le> k \<Longrightarrow> record_size (take k f) = record_size f"
  by (simp add: record_size_def sub_header_take)

lemma interleaved_doc_take:
  "record_size f \<le> k \<Longrightarrow> interleaved_doc tr (take k f) = interleaved_doc tr f"
proof -
  assume a: "record_size f \<le> k"
  then have k8: "8 \<le> k" using record_size_ge [of f] by simp
  have "8 * nat (int32_of (take 4 (drop 4 f))) \<le> k - 8"
    using a by (simp add: record_size_def)
  then have "fields_if (nat (int32_of (take 4 (drop 4 f)))) (take (k - 8) (drop 8 f))
      = fields_if (nat (int32_of (take 4 (drop 4 f)))) (drop 8 f)"
    by (rule fields_if_take)
  moreover have "drop 8 (take k f) = take (k - 8) (drop 8 f)"
    by (simp add: drop_take)
  ultimately show ?thesis
    unfolding interleaved_doc_def sub_header_take [OF k8] by simp
qed

lemma docs_loop1_step:
  assumes "8 \<le> length f" and "record_size f \<le> length f"
  shows "docs_loop1 tr (Suc n) f =
    yield (interleaved_doc tr (take (record_size f) f)) (docs_loop1 tr n (drop (record_size f) f))"
proof -
  let ?len = "nat (int32_of (take 4 (drop 4 f)))"
  have l: "8 * ?len \<le> length (drop 8 f)"
    using assms by (simp add: record_size_def)
  have d: "drop (8 * ?len + 8) f = drop (record_size f) f"
    by (simp add: record_size_def add.commute)
  have "docs_loop1 tr (Suc n) f =
      yield (interleaved_doc tr f) (docs_loop1 tr n (drop (record_size f) f))"
    using assms(1) l
    by (simp add: f_read_def unpack_ii_take entries_loop1_eq d interleaved_doc_def
        split: prod.splits)
  then show ?thesis by (simp add: interleaved_doc_take)
qed

lemma docs_loop1_fail:
  assumes "length f < 8 \<or> length f < record_size f"
  shows "docs_loop1 tr (Suc n) f = raise StructError"
proof (cases "length f < 8")
  case True
  then show ?thesis by (simp add: f_read_def unpack_ii_def)
next
  case False
  with assms have "\<not> 8 * nat (int32_of (take 4 (drop 4 f))) \<le> length f - 8"
    by (simp add: record_size_def)
  with False show ?thesis
    by (simp add: f_read_def unpack_ii_take entries_loop1_eq)
qed

lemma loop_well_formed:
  fixes loop :: "nat \<Rightarrow> byte list \<Rightarrow> 'a gen"
  assumes zero: "\<And>f. loop 0 f = ([], None)"
    and step: "\<And>n f. 8 \<le> length f \<Longrightarrow> 0 \<le> int32_of (take 4 (drop 4 f)) \<Longrightarrow>
      record_size f \<le> length f \<Longrightarrow>
      loop (Suc n) f = yield (dec (take (record_size f) f)) (loop n (drop (record_size f) f))"
  shows "well_formed_records n f \<Longrightarrow> loop n f = (map dec (records n f), None)"
proof (induction n arbitrary: f)
  case 0
  show ?case by (simp add: zero)
next
  case (Suc n)
  then have w: "8 \<le> length f" "0 \<le> int32_of (take 4 (drop 4 f))" "record_size f \<le> length f"
    "well_formed_records n (drop (record_size f) f)"
    by simp_all
  show ?case
    by (simp add: step [OF w(1-3)] Suc.IH [OF w(4)] yield_def)
qed

lemma loop_truncated:
  fixes loop :: "nat \<Rightarrow> byte list \<Rightarrow> 'a gen"
  assumes step: "\<And>n f. 8 \<le> length f \<Longrightarrow> 0 \<le> int32_of (take 4 (drop 4 f)) \<Longrightarrow>
      record_size f \<le> length f \<Longrightarrow>
      loop (Suc n) f = yield (dec (take (record_size f) f)) (loop n (drop (record_size f) f))"
    and fail: "\<And>n f. length f < 8 \<or> length f < record_size f \<Longrightarrow>
      loop (Suc n) f = raise (err (length f))"
    and err: "\<And>k f. record_size f \<le> k \<Longrightarrow> err (k - record_size f) = err k"
  shows "well_formed_records n f \<Longrightarrow> k < length f \<Longrightarrow>
    loop n (take k f) = (map dec (take (records_before n k f) (records n f)), Some (err k))"
proof (induction n arbitrary: f k)
  case 0
  then show ?case by simp
next
  case (Suc n)
  then have w: "8 \<le> length f" "0 \<le> int32_of (take 4 (drop 4 f))" "record_size f \<le> length f"
    "well_formed_records n (drop (record_size f) f)"
    by simp_all
  show ?case
  proof (cases "k < record_size f")
    case True
    have "length (take k f) < 8 \<or> length (take k f) < record_size (take k f)"
    proof (cases "k < 8")
      case True
      with Suc.prems(2) show ?thesis by simp
    next
      case False
      with \<open>k < record_size f\<close> Suc.prems(2) show ?thesis
        by (simp add: record_size_take)
    qed
    then have "loop (Suc n) (take k f) = raise (err (length (take k f)))"
      by (rule fail)
    with True Suc.prems(2) show ?thesis
      by (simp add: raise_def min_def)
  next
    case False
    then have k8: "8 \<le> k" using record_size_ge [of f] by simp
    let ?g = "take k f"
    have g: "8 \<le> length ?g" "0 \<le> int32_of (take 4 (drop 4 ?g))" "record_size ?g \<le> length ?g"
      using False k8 w Suc.prems(2) by (simp_all add: sub_header_take record_size_take)
    have t: "take (record_size ?g) ?g = take (record_size f) f"
      using False k8 by (simp add: record_size_take min_def)
    have d: "drop (record_size ?g) ?g = take (k - record_size f) (drop (record_size f) f)"
      using k8 by (simp add: record_size_take drop_take)
    have "k - record_size f < length (drop (record_size f) f)"
      using False Suc.prems(2) by simp
    note ih = Suc.IH [OF w(4) this]
    have "loop (Suc n) ?g =
        yield (dec (take (record_size ?g) ?g)) (loop n (drop (record_size ?g) ?g))"
      by (rule step [OF g])
    then have "loop (Suc n) ?g =
        yield (dec (take (record_size f) f))
          (loop n (take (k - record_size f) (drop (record_size f) f)))"
      by (simp only: t d)
    with ih False show ?thesis
      by (simp add: yield_def err)
  qed
qed

lemma loop_prefix:
  fixes loop :: "nat \<Rightarrow> byte list \<Rightarrow> 'a gen"
  assumes step: "\<And>n f. 8 \<le> length f \<Longrightarrow> 0 \<le> int32_of (take 4 (drop 4 f)) \<Longrightarrow>
      record_size f \<le> length f \<Longrightarrow>
      loop (Suc n) f = yield (dec (take (record_size f) f)) (loop n (drop (record_size f) f))"
  shows "well_formed_records i pre \<Longrightarrow>
    loop (i + m) (pre @ g) = (map dec (records i pre) @ fst (loop m g), snd (loop m g))"
proof (induction i arbitrary: pre)
  case 0
  then show ?case by simp
next
  case (Suc i)
  then have w: "8 \<le> length pre" "0 \<le> int32_of (take 4 (drop 4 pre))"
    "record_size pre \<le> length pre" "well_formed_records i (drop (record_size pre) pre)"
    by simp_all
  let ?h = "pre @ g"
  have sh: "take 4 (drop 4 ?h) = take 4 (drop 4 pre)"
    using w(1) by simp
  have rs: "record_size ?h = record_size pre"
    by (simp only: record_size_def sh)
  have h: "8 \<le> length ?h" "0 \<le> int32_of (take 4 (drop 4 ?h))" "record_size ?h \<le> length ?h"
    using w(1-3) by (simp_all only: rs sh) simp_all
  have t: "take (record_size ?h) ?h = take (record_size pre) pre"
    using w(3) by (simp add: rs)
  have d: "drop (record_size ?h) ?h = drop (record_size pre) pre @ g"
    using w(3) by (simp add: rs)
  have "loop (Suc (i + m)) ?h =
      yield (dec (take (record_size ?h) ?h)) (loop (i + m) (drop (record_size ?h) ?h))"
    by (rule step [OF h])
  then have "loop (Suc (i + m)) ?h =
      yield (dec (take (record_size pre) pre)) (loop (i + m) (drop (record_size pre) pre @ g))"
    by (simp only: t d)
  then show ?case
    by (simp add: Suc.IH [OF w(4)] yield_def)
qed

lemma records_before_less:
  "well_formed_records n f \<Longrightarrow> k < length f \<Longrightarrow> records_before n k f < n"
proof (induction n arbitrary: f k)
  case 0
  then show ?case by simp
next
  case (Suc n)
  then show ?case by (auto simp: not_less)
qed

lemma length_records [simp]: "length (records n f) = n"
  by (induction n arbitrary: f) simp_all

subsection \<open>The array reader\<close>

lemma items_take: "4 * n \<le> k \<Longrightarrow> items conv n (take k f) = items conv n f"
proof (induction n arbitrary: k f)
  case 0
  show ?case by simp
next
  case (Suc n)
  then have k: "4 \<le> k" "4 * n \<le> k - 4" by simp_all
  have "items conv n (drop 4 (take k f)) = items conv n (drop 4 f)"
    using Suc.IH [OF k(2), of "drop 4 f"] by (simp add: drop_take)
  with k show ?case by (simp add: min_def)
qed

lemma fromfile_ok:
  assumes "0 \<le> n" and "4 * nat n \<le> length f"
  shows "fromfile conv n f = Inr (items conv (nat n) f, drop (4 * nat n) f)"
  using assms by (simp add: fromfile_def f_read_def min_def items_take)

lemma fromfile_short:
  assumes "0 \<le> n" and "length f < 4 * nat n"
  shows "fromfile conv n f = Inl (short_read (length f))"
  using assms by (auto simp: fromfile_def f_read_def short_read_def dvd_eq_mod_eq_0)

lemma items_2: "items conv (Suc (Suc 0)) f = [conv (take 4 f), conv (take 4 (drop 4 f))]"
  by simp

lemma short_read_sub: "4 dvd m \<Longrightarrow> m \<le> k \<Longrightarrow> short_read (k - m) = short_read k"
  by (auto simp: short_read_def intro: dvd_diff_nat dest: dvd_diffD)

lemma columnar_doc_take:
  assumes "record_size f \<le> k"
  shows "columnar_doc (take k f) = columnar_doc f"
proof -
  let ?n = "nat (int32_of (take 4 (drop 4 f)))"
  from assms have k8: "8 \<le> k" using record_size_ge [of f] by simp
  have a: "4 * ?n \<le> k - 8" "4 * ?n \<le> k - (8 + 4 * ?n)"
    using assms by (simp_all add: record_size_def)
  have i1: "items int32_of ?n (take (k - 8) (drop 8 f)) = items int32_of ?n (drop 8 f)"
    using a(1) by (rule items_take)
  have i2: "items float32_of ?n (take (k - (8 + 4 * ?n)) (drop (8 + 4 * ?n) f))
      = items float32_of ?n (drop (8 + 4 * ?n) f)"
    using a(2) by (rule items_take)
  have d1: "drop 8 (take k f) = take (k - 8) (drop 8 f)"
    by (simp add: drop_take)
  have d2: "drop (8 + 4 * ?n) (take k f) = take (k - (8 + 4 * ?n)) (drop (8 + 4 * ?n) f)"
    by (simp add: drop_take)
  show ?thesis
    unfolding columnar_doc_def sub_header_take [OF k8] Let_def d1 d2 i1 i2 ..
qed

lemma docs_loop_array_step:
  assumes "8 \<le> length f" and "0 \<le> int32_of (take 4 (drop 4 f))"
    and "record_size f \<le> length f"
  shows "docs_loop_array (Suc n) f =
    yield (columnar_doc (take (record_size f) f)) (docs_loop_array n (drop (record_size f) f))"
proof -
  let ?len = "int32_of (take 4 (drop 4 f))"
  have h: "fromfile int32_of 2 f = Inr ([int32_of (take 4 f), ?len], drop 8 f)"
    using assms(1) fromfile_ok [of 2 f int32_of] by (simp add: numeral_2_eq_2)
  have l1: "4 * nat ?len \<le> length (drop 8 f)"
    using assms(3) by (simp add: record_size_def)
  have t: "fromfile int32_of ?len (drop 8 f) =
      Inr (items int32_of (nat ?len) (drop 8 f), drop (8 + 4 * nat ?len) f)"
    using fromfile_ok [OF assms(2) l1, of int32_of] by (simp add: add.commute)
  have l2: "4 * nat ?len \<le> length (drop (8 + 4 * nat ?len) f)"
    using assms(3) by (simp add: record_size_def)
  have v: "fromfile float32_of ?len (drop (8 + 4 * nat ?len) f) =
      Inr (items float32_of (nat ?len) (drop (8 + 4 * nat ?len) f), drop (record_size f) f)"
    using fromfile_ok [OF assms(2) l2, of float32_of]
    by (simp add: record_size_def add.commute)
  have "docs_loop_array (Suc n) f =
      yield (columnar_doc f) (docs_loop_array n (drop (record_size f) f))"
    by (simp add: h t v columnar_doc_def Let_def)
  then show ?thesis by (simp add: columnar_doc_take)
qed

lemma docs_loop_array_fail:
  assumes "length f < 8 \<or> length f < record_size f"
  shows "docs_loop_array (Suc n) f = raise (short_read (length f))"
proof (cases "length f < 8")
  case True
  then have "fromfile int32_of 2 f = Inl (short_read (length f))"
    using fromfile_short [of 2 f int32_of] by simp
  then show ?thesis by simp
next
  case False
  note ge8 = False
  let ?len = "int32_of (take 4 (drop 4 f))"
  from False assms have s: "length f < 8 + 8 * nat ?len"
    by (simp add: record_size_def)
  with False have pos: "0 \<le> ?len" by (cases "0 \<le> ?len") simp_all
  have h: "fromfile int32_of 2 f = Inr ([int32_of (take 4 f), ?len], drop 8 f)"
    using False fromfile_ok [of 2 f int32_of] by (simp add: numeral_2_eq_2)
  show ?thesis
  proof (cases "length f < 8 + 4 * nat ?len")
    case True
    with ge8 have "length (drop 8 f) < 4 * nat ?len" by simp
    from fromfile_short [OF pos this, of int32_of] ge8
    have "fromfile int32_of ?len (drop 8 f) = Inl (short_read (length f))"
      by (simp add: short_read_sub)
    then show ?thesis by (simp add: h)
  next
    case False
    then have l1: "4 * nat ?len \<le> length (drop 8 f)" by simp
    have t: "fromfile int32_of ?len (drop 8 f) =
        Inr (items int32_of (nat ?len) (drop 8 f), drop (8 + 4 * nat ?len) f)"
      using fromfile_ok [OF pos l1, of int32_of] by (simp add: add.commute)
    have "length (drop (8 + 4 * nat ?len) f) < 4 * nat ?len"
      using s False by simp
    from fromfile_short [OF pos this, of float32_of] False ge8
    have "fromfile float32_of ?len (drop (8 + 4 * nat ?len) f) = Inl (short_read (length f))"
      using short_read_sub [of "8 + 4 * nat ?len" "length f"] by simp
    then show ?thesis by (simp add: h t)
  qed
qed

lemma short_read_record: "record_size f \<le> k \<Longrightarrow> short_read (k - record_size f) = short_read k"
  by (rule short_read_sub) (simp_all add: record_size_def)

subsection \<open>Whole passes\<close>

lemma unpack_iii_take:
  "12 \<le> length f \<Longrightarrow> unpack_iii (take 12 f) =
     Inr (int32_of (take 4 f), int32_of (take 4 (drop 4 f)), int32_of (take 4 (drop 8 f)))"
  by (simp add: unpack_iii_def min_def drop_take)

lemma MmReader1_pass_eq:
  "MmReader1_pass f tr =
     (if length f < 12 then raise StructError
      else docs_loop1 tr (nat (int32_of (take 4 f))) (drop 12 f))"
proof (cases "length f < 12")
  case True
  then show ?thesis
    by (simp add: MmReader1_pass_def MmReader1_init_def read_headers_def f_read_def unpack_iii_def)
next
  case False
  then show ?thesis
    by (simp add: MmReader1_pass_def MmReader1_init_def MmReader1_iter_def read_headers_def
        skip_headers_def f_read_def unpack_iii_take)
qed

lemma MmReader2_pass_eq:
  "MmReader2_pass f tr =
     (if length f < 12 then raise StructError
      else docs_loop2 tr (nat (int32_of (take 4 f))) (drop 12 f))"
proof (cases "length f < 12")
  case True
  then show ?thesis
    by (simp add: MmReader2_pass_def MmReader2_init_def read_headers_def f_read_def unpack_iii_def)
next
  case False
  then show ?thesis
    by (simp add: MmReader2_pass_def MmReader2_init_def MmReader2_iter_def read_headers_def
        skip_headers_def f_read_def unpack_iii_take)
qed

lemma MmReaderArray_pass_eq:
  "MmReaderArray_pass f tr =
     (if length f < 12 then raise (short_read (length f))
      else docs_loop_array (nat (int32_of (take 4 f))) (drop 12 f))"
proof (cases "length f < 12")
  case True
  then have "fromfile int32_of 3 f = Inl (short_read (length f))"
    using fromfile_short [of 3 f int32_of] by simp
  with True show ?thesis
    by (simp add: MmReaderArray_pass_def MmReaderArray_init_def read_headers_array_def)
next
  case False
  then have "fromfile int32_of 3 f =
      Inr ([int32_of (take 4 f), int32_of (take 4 (drop 4 f)), int32_of (take 4 (drop 8 f))],
           drop 12 f)"
    using fromfile_ok [of 3 f int32_of] by (simp add: numeral_3_eq_3)
  with False show ?thesis
    by (simp add: MmReaderArray_pass_def MmReaderArray_init_def MmReaderArray_iter_def
        read_headers_array_def skip_headers_array_def)
qed

subsection \<open>Passes over well-formed and truncated files\<close>

lemma docs_loop1_well_formed:
  "well_formed_records n f \<Longrightarrow> docs_loop1 tr n f = (map (interleaved_doc tr) (records n f), None)"
  by (rule loop_well_formed [where loop = "docs_loop1 tr"])
    (simp_all del: docs_loop1.simps(2) add: docs_loop1_step)

lemma docs_loop_array_well_formed:
  "well_formed_records n f \<Longrightarrow> docs_loop_array n f = (map columnar_doc (records n f), None)"
  by (rule loop_well_formed [where loop = docs_loop_array])
    (simp_all del: docs_loop_array.simps(2) add: docs_loop_array_step)

lemma docs_loop1_truncated:
  "well_formed_records n f \<Longrightarrow> k < length f \<Longrightarrow>
   docs_loop1 tr n (take k f) =
     (map (interleaved_doc tr) (take (records_before n k f) (records n f)), Some StructError)"
  by (rule loop_truncated [where loop = "docs_loop1 tr" and err = "\<lambda>k. StructError"])
    (simp_all del: docs_loop1.simps(2) add: docs_loop1_step docs_loop1_fail)

lemma docs_loop_array_truncated:
  "well_formed_records n f \<Longrightarrow> k < length f \<Longrightarrow>
   docs_loop_array n (take k f) =
     (map columnar_doc (take (records_before n k f) (records n f)), Some (short_read k))"
  by (rule loop_truncated [where loop = docs_loop_array and err = short_read])
    (simp_all del: docs_loop_array.simps(2)
      add: docs_loop_array_step docs_loop_array_fail short_read_record)

lemma docs_loop1_prefix:
  "well_formed_records i pre \<Longrightarrow>
   docs_loop1 tr (i + m) (pre @ g) =
     (map (interleaved_doc tr) (records i pre) @ fst (docs_loop1 tr m g), snd (docs_loop1 tr m g))"
  by (rule loop_prefix [where loop = "docs_loop1 tr"]) (rule docs_loop1_step)

lemma docs_loop_array_prefix:
  "well_formed_records i pre \<Longrightarrow>
   docs_loop_array (i + m) (pre @ g) =
     (map columnar_doc (records i pre) @ fst (docs_loop_array m g), snd (docs_loop_array m g))"
  by (rule loop_prefix [where loop = docs_loop_array]) (rule docs_loop_array_step)

lemma read_headers_num_docs:
  "read_headers f = Inr (nd, nt, nnz) \<Longrightarrow> 12 \<le> length f \<Longrightarrow> nd = int32_of (take 4 f)"
  by (simp add: read_headers_def f_read_def unpack_iii_take)

lemma well_formed_interleaved_example: "well_formed interleaved_example"
  by code_simp

lemma read_headers_interleaved_example: "read_headers interleaved_example = Inr (2, 3, 3)"
  by (simp add: read_headers_def f_read_def unpack_iii_def interleaved_example_def int32_of_def)

subsection \<open>The writer\<close>

lemma fits_i32_nat: "fits_i32 (int n) = (n < 2147483648)"
  by (simp add: fits_i32_def)

lemma length_stored_doc: "length (stored_doc doc) = length doc"
  by (simp add: stored_doc_def)

lemma stored_doc_Cons:
  "stored_doc ((termid, value) # doc) = (termid, c_float value) # stored_doc doc"
  by (simp add: stored_doc_def)

lemma zip_stored_doc: "zip (map fst doc) (map snd (stored_doc doc)) = stored_doc doc"
  by (induction doc) (auto simp: stored_doc_def)

lemma append_loop_eq:
  "append_loop doc termids values =
     (if \<forall>(termid, value) \<in> set doc. fits_i32 termid
      then Inr (termids @ map fst doc, values @ map snd (stored_doc doc))
      else Inl OverflowError)"
  by (induction doc termids "values" rule: append_loop.induct)
    (auto simp: stored_doc_def)

lemma closed_write_docs: "closed (fst (write_docs docid docs f)) = closed f"
proof (induction docs arbitrary: docid f)
  case Nil
  show ?case by simp
next
  case (Cons doc rest)
  show ?case
    by (simp add: array_i_def tofile_i_def tofile_f_def f_write_def Cons.IH Let_def
        split: sum.splits prod.splits)
qed

lemma write_docs_ok:
  assumes "docid + length docs \<le> 2147483648"
    and "\<forall>doc \<in> set docs. length doc < 2147483648 \<and> (\<forall>(termid, value) \<in> set doc. fits_i32 termid)"
  shows "write_docs docid docs f = (f_write (columnar_records docid docs) f, None)"
  using assms
proof (induction docs arbitrary: docid f)
  case Nil
  show ?case by (simp add: f_write_def)
next
  case (Cons doc rest)
  from Cons.prems have a: "docid < 2147483648" "length doc < 2147483648"
    "\<forall>(termid, value) \<in> set doc. fits_i32 termid"
    "Suc docid + length rest \<le> 2147483648"
    "\<forall>doc \<in> set rest. length doc < 2147483648 \<and> (\<forall>(termid, value) \<in> set doc. fits_i32 termid)"
    by simp_all
  show ?case
    using a(1-3)
    by (simp add: array_i_def fits_i32_nat append_loop_eq Cons.IH [OF a(4,5)]
        tofile_i_def tofile_f_def f_write_def)
qed

lemma write_docs_error:
  assumes "\<not> ((docs = [] \<or> docid + length docs \<le> 2147483648) \<and>
    (\<forall>doc \<in> set docs. length doc < 2147483648 \<and> (\<forall>(termid, value) \<in> set doc. fits_i32 termid)))"
  shows "snd (write_docs docid docs f) = Some OverflowError"
  using assms
proof (induction docs arbitrary: docid f)
  case Nil
  then show ?case by simp
next
  case (Cons doc rest)
  show ?case
  proof (cases "docid < 2147483648 \<and> length doc < 2147483648 \<and>
      (\<forall>(termid, value) \<in> set doc. fits_i32 termid)")
    case False
    then show ?thesis
      by (auto simp: array_i_def fits_i32_nat append_loop_eq)
  next
    case True
    with Cons.prems have "\<not> ((rest = [] \<or> Suc docid + length rest \<le> 2147483648) \<and>
      (\<forall>doc \<in> set rest. length doc < 2147483648 \<and> (\<forall>(termid, value) \<in> set doc. fits_i32 termid)))"
      by auto
    from Cons.IH [OF this] True show ?thesis
      by (simp add: array_i_def fits_i32_nat append_loop_eq)
  qed
qed

lemma save_corpus_ok:
  assumes "storable c"
  shows "save_corpus c =
    (\<lparr>written = concat (map bytes_i32 [corpus_num_docs c, corpus_num_terms c, corpus_num_nnz c])
         @ columnar_records 0 (corpus_docs c), closed = True\<rparr>, None)"
proof -
  from assms have h: "fits_i32 (corpus_num_docs c)" "fits_i32 (corpus_num_terms c)"
    "fits_i32 (corpus_num_nnz c)"
    and d: "0 + length (corpus_docs c) \<le> 2147483648"
    "\<forall>doc \<in> set (corpus_docs c).
         length doc < 2147483648 \<and> (\<forall>(termid, value) \<in> set doc. fits_i32 termid)"
    by (simp_all add: storable_def)
  show ?thesis
    using h by (simp add: save_corpus_def array_i_def write_docs_ok [OF d] tofile_i_def
        f_write_def f_close_def)
qed

lemma save_corpus_error:
  assumes "\<not> storable c"
  shows "snd (save_corpus c) = Some OverflowError \<and> \<not> closed (fst (save_corpus c))"
proof (cases "fits_i32 (corpus_num_docs c) \<and> fits_i32 (corpus_num_terms c) \<and>
    fits_i32 (corpus_num_nnz c)")
  case False
  then show ?thesis by (auto simp: save_corpus_def array_i_def)
next
  case True
  let ?f = "tofile_i [corpus_num_docs c, corpus_num_terms c, corpus_num_nnz c]
    \<lparr>written = [], closed = False\<rparr>"
  from True assms have "\<not> ((corpus_docs c = [] \<or> 0 + length (corpus_docs c) \<le> 2147483648) \<and>
    (\<forall>doc \<in> set (corpus_docs c).
       length doc < 2147483648 \<and> (\<forall>(termid, value) \<in> set doc. fits_i32 termid)))"
    by (auto simp: storable_def)
  then have e: "snd (write_docs 0 (corpus_docs c) ?f) = Some OverflowError"
    by (rule write_docs_error)
  have cl: "closed (fst (write_docs 0 (corpus_docs c) ?f)) = False"
    by (simp add: closed_write_docs tofile_i_def f_write_def)
  obtain g r where w: "write_docs 0 (corpus_docs c) ?f = (g, r)"
    by (cases "write_docs 0 (corpus_docs c) ?f")
  with e cl True show ?thesis
    by (simp add: save_corpus_def array_i_def)
qed

subsection \<open>Reading what the writer wrote\<close>

lemma length_concat4:
  "\<forall>x \<in> set xs. length (enc x) = 4 \<Longrightarrow> length (concat (map enc xs)) = 4 * length xs"
  by (induction xs) simp_all

lemma items_concat:
  "\<forall>x \<in> set xs. length (enc x) = 4 \<and> conv (enc x) = x \<Longrightarrow>
   items conv (length xs) (concat (map enc xs) @ rest) = xs"
  by (induction xs) simp_all

lemma fromfile_concat:
  assumes "\<forall>x \<in> set xs. length (enc x) = 4 \<and> conv (enc x) = x"
  shows "fromfile conv (int (length xs)) (concat (map enc xs) @ rest) = Inr (xs, rest)"
proof -
  have l: "length (concat (map enc xs)) = 4 * length xs"
    using assms by (simp add: length_concat4)
  have "fromfile conv (int (length xs)) (concat (map enc xs) @ rest) =
      Inr (items conv (nat (int (length xs))) (concat (map enc xs) @ rest),
           drop (4 * nat (int (length xs))) (concat (map enc xs) @ rest))"
    by (rule fromfile_ok) (simp_all add: l)
  then show ?thesis
    using assms by (simp add: items_concat l)
qed

lemma fromfile_sub_header:
  assumes "fits_i32 a" and "fits_i32 b"
  shows "fromfile int32_of 2 (bytes_i32 a @ bytes_i32 b @ rest) = Inr ([a, b], rest)"
  using fromfile_concat [of "[a, b]" bytes_i32 int32_of rest] assms
  by (simp add: int32_of_bytes_i32)

lemma fromfile_header:
  assumes "fits_i32 a" and "fits_i32 b" and "fits_i32 c"
  shows "fromfile int32_of 3 (bytes_i32 a @ bytes_i32 b @ bytes_i32 c @ rest) = Inr ([a, b, c], rest)"
  using fromfile_concat [of "[a, b, c]" bytes_i32 int32_of rest] assms
  by (simp add: int32_of_bytes_i32)

lemma fromfile_termids:
  assumes "\<forall>(termid, value) \<in> set doc. fits_i32 termid"
  shows "fromfile int32_of (int (length doc)) (concat (map (bytes_i32 \<circ> fst) doc) @ rest)
    = Inr (map fst doc, rest)"
proof -
  have "\<forall>x \<in> set (map fst doc). length (bytes_i32 x) = 4 \<and> int32_of (bytes_i32 x) = x"
    using assms by (auto simp: int32_of_bytes_i32)
  from fromfile_concat [OF this, of rest] show ?thesis by simp
qed

lemma fromfile_values:
  "fromfile float32_of (int (length doc)) (concat (map (bytes_f32 \<circ> snd) doc) @ rest)
    = Inr (map snd doc, rest)"
proof -
  have "\<forall>x \<in> set (map snd doc). length (bytes_f32 x) = 4 \<and> float32_of (bytes_f32 x) = x"
    by (simp add: float32_of_bytes_f32)
  from fromfile_concat [OF this, of rest] show ?thesis by simp
qed

lemma fromfile_stored_values:
  "fromfile float32_of (int (length doc))
     (concat (map (bytes_f32 \<circ> snd) (stored_doc doc)) @ rest)
    = Inr (map snd (stored_doc doc), rest)"
  using fromfile_values [of "stored_doc doc" rest] by (simp add: length_stored_doc)

lemma docs_loop_array_columnar:
  assumes "docs = [] \<or> docid + length docs \<le> 2147483648"
    and "\<forall>doc \<in> set docs. length doc < 2147483648 \<and> (\<forall>(termid, value) \<in> set doc. fits_i32 termid)"
  shows "docs_loop_array (length docs) (columnar_records docid docs) = (map stored_doc docs, None)"
  using assms
proof (induction docs arbitrary: docid)
  case Nil
  show ?case by simp
next
  case (Cons doc rest)
  from Cons.prems have a: "fits_i32 (int docid)" "fits_i32 (int (length doc))"
    "\<forall>(termid, value) \<in> set doc. fits_i32 termid"
    and r: "rest = [] \<or> Suc docid + length rest \<le> 2147483648"
    "\<forall>doc \<in> set rest. length doc < 2147483648 \<and> (\<forall>(termid, value) \<in> set doc. fits_i32 termid)"
    by (auto simp: fits_i32_nat)
  show ?case
    by (simp add: fromfile_sub_header [OF a(1,2)] fromfile_termids [OF a(3)]
        fromfile_stored_values Cons.IH [OF r] yield_def zip_stored_doc)
qed

lemma storable_corpus_example: "storable corpus_example"
  by (simp add: storable_def corpus_example_def fits_i32_def)

lemma storable_corpus_miscounted: "storable corpus_miscounted"
  by (simp add: storable_def corpus_miscounted_def fits_i32_def)

subsection \<open>The files of the writer are well-formed\<close>

lemma well_formed_columnar_records:
  assumes "docs = [] \<or> docid + length docs \<le> 2147483648"
    and "\<forall>doc \<in> set docs. length doc < 2147483648 \<and> (\<forall>(termid, value) \<in> set doc. fits_i32 termid)"
  shows "well_formed_records (length docs) (columnar_records docid docs)"
  using assms
proof (induction docs arbitrary: docid)
  case Nil
  show ?case by simp
next
  case (Cons doc rest)
  from Cons.prems have a: "fits_i32 (int (length doc))"
    and r: "rest = [] \<or> Suc docid + length rest \<le> 2147483648"
    "\<forall>doc \<in> set rest. length doc < 2147483648 \<and> (\<forall>(termid, value) \<in> set doc. fits_i32 termid)"
    by (auto simp: fits_i32_nat)
  let ?f = "columnar_records docid (doc # rest)"
  have t: "length (concat (map (bytes_i32 \<circ> fst) doc)) = 4 * length doc"
    by (rule length_concat4) simp
  have v: "length (concat (map (bytes_f32 \<circ> snd) (stored_doc doc))) = 4 * length doc"
    using length_concat4 [of "stored_doc doc" "bytes_f32 \<circ> snd"]
    by (simp add: length_stored_doc)
  have l: "take 4 (drop 4 ?f) = bytes_i32 (int (length doc))"
    by simp
  have s: "record_size ?f = 8 + 8 * length doc"
    unfolding record_size_def l int32_of_bytes_i32 [OF a] by simp
  have d: "drop (8 + 8 * length doc) ?f = columnar_records (Suc docid) rest"
    by (simp add: t v)
  have len: "8 + 8 * length doc \<le> length ?f"
    by (simp add: t v)
  have nn: "0 \<le> int32_of (take 4 (drop 4 ?f))"
    unfolding l int32_of_bytes_i32 [OF a] by simp
  have w: "well_formed_records (length rest) (columnar_records (Suc docid) rest)"
    using r by (rule Cons.IH)
  have "well_formed_records (Suc (length rest)) ?f"
    unfolding well_formed_records.simps s d using len nn w by simp
  then show ?case by simp
qed

lemma save_corpus_well_formed:
  assumes "storable c" and "corpus_num_docs c = int (length (corpus_docs c))"
  shows "well_formed (written (fst (save_corpus c)))"
proof -
  from assms(1) have h: "fits_i32 (corpus_num_docs c)"
    and d: "corpus_docs c = [] \<or> 0 + length (corpus_docs c) \<le> 2147483648"
    "\<forall>doc \<in> set (corpus_docs c).
         length doc < 2147483648 \<and> (\<forall>(termid, value) \<in> set doc. fits_i32 termid)"
    by (simp_all add: storable_def)
  have n: "int32_of (bytes_i32 (corpus_num_docs c)) = int (length (corpus_docs c))"
    using h by (simp add: int32_of_bytes_i32 assms(2))
  show ?thesis
    using well_formed_columnar_records [OF d]
    by (simp add: save_corpus_ok [OF assms(1)] well_formed_def n)
qed

subsection \<open>Evaluation on the examples\<close>

lemma entries_loop1_numeral:
  "entries_loop1 tr (numeral k) f docid document =
     entries_loop1 tr (Suc (pred_numeral k)) f docid document"
  by (simp only: numeral_eq_Suc)

lemma docs_loop1_numeral: "docs_loop1 tr (numeral k) f = docs_loop1 tr (Suc (pred_numeral k)) f"
  by (simp only: numeral_eq_Suc)

lemma items_numeral: "items conv (numeral k) f = items conv (Suc (pred_numeral k)) f"
  by (simp only: numeral_eq_Suc)

lemma docs_loop_array_numeral:
  "docs_loop_array (numeral k) f = docs_loop_array (Suc (pred_numeral k)) f"
  by (simp only: numeral_eq_Suc)

lemmas eval_simps = f_read_def unpack_ii_def unpack_if_def int32_of_def float32_of_def
  yield_def raise_def entries_loop1_numeral docs_loop1_numeral items_numeral
  docs_loop_array_numeral fromfile_def

lemma MmReader1_pass_example_False:
  "MmReader1_pass interleaved_example False =
     ([[(7, 1075838976), (1, 1065353216)], []], None)"
  by (simp add: MmReader1_pass_eq interleaved_example_def eval_simps)

lemma MmReader1_pass_example_True:
  "MmReader1_pass interleaved_example True =
     ([[(1, 1075838976), (2, 1065353216)], []], None)"
  by (simp add: MmReader1_pass_eq interleaved_example_def eval_simps)

lemma MmReader2_pass_eq_1: "MmReader2_pass f tr = MmReader1_pass f tr"
  by (simp add: MmReader2_pass_eq MmReader1_pass_eq docs_loop2_eq)

lemma MmReaderArray_pass_example:
  "MmReaderArray_pass columnar_example tr =
     ([[(1, 1075838976), (2, 1065353216)], []], None)"
  by (simp add: MmReaderArray_pass_eq columnar_example_def eval_simps)

text \<open>
  The conversions on 2.5, 1.0, 4.0 and 0.1; on \<open>1e300\<close>, which becomes infinity; on
  \<open>1e-40\<close>, which becomes a subnormal float; and on 16777217, halfway between two
  floats, which goes to the even one.
\<close>

lemma c_float_examples:
  "c_float 4612811918334230528 = 1075838976"
  "c_float 4607182418800017408 = 1065353216"
  "c_float 4616189618054758400 = 1082130432"
  "c_float 4591870180066957722 = 1036831949"
  "c_float 9094988921128908188 = 2139095040"
  "c_float 4008604054463141788 = 71362"
  "c_float 4715268810125344768 = 1266679808"
  by (simp_all add: c_float_def round_shift_def)

lemma py_float_examples:
  "py_float 1075838976 = 4612811918334230528"
  "py_float 1065353216 = 4607182418800017408"
  "py_float 1082130432 = 4616189618054758400"
  "py_float 1036831949 = 4591870180174331904"
  "py_float 2139095040 = 9218868437227405312"
  "py_float 71362 = 4008604028031205376"
  by (simp_all add: py_float_def bit_length.simps)

lemma float_weights_corpus_example: "float_weights corpus_example"
  by (simp add: float_weights_def corpus_example_def c_float_examples py_float_examples)

lemma storable_corpus_tenth: "storable corpus_tenth"
  by (simp add: storable_def corpus_tenth_def fits_i32_def)

lemma save_corpus_miscounted:
  "save_corpus corpus_miscounted =
     (\<lparr>written = [1,0,0,0, 3,0,0,0, 3,0,0,0,
                   0,0,0,0, 1,0,0,0, 1,0,0,0, 0,0,32,64,
                   1,0,0,0, 2,0,0,0, 0,0,0,0, 2,0,0,0, 0,0,128,63, 0,0,128,64],
       closed = True\<rparr>, None)"
  by (simp add: save_corpus_ok [OF storable_corpus_miscounted])
    (simp add: corpus_miscounted_def stored_doc_def c_float_examples
      bytes_i32_def bytes_f32_def bytes4_def)

lemma save_corpus_tenth:
  "save_corpus corpus_tenth =
     (\<lparr>written = [1,0,0,0, 2,0,0,0, 1,0,0,0,
                   0,0,0,0, 1,0,0,0, 1,0,0,0, 205,204,204,61],
       closed = True\<rparr>, None)"
  by (simp add: save_corpus_ok [OF storable_corpus_tenth])
    (simp add: corpus_tenth_def stored_doc_def c_float_examples
      bytes_i32_def bytes_f32_def bytes4_def)

lemma python_stored_doc:
  "\<forall>(termid, value) \<in> set doc. py_float (c_float value) = value \<Longrightarrow>
   python_doc (stored_doc doc) = doc"
  by (induction doc) (auto simp: python_doc_def stored_doc_def)

section \<open>The claims\<close>

text \<open>
  Claim C1 (transposition symmetry of the interleaved readers). The claim requires that
  with \<open>transposed=False\<close> every entry of a record with sub-header id 7 has 7 as its
  first component, i.e. the entries of the example's first record decode as
  \<open>(7, 2.5), (7, 1.0)\<close>, the swap of what \<open>transposed=True\<close> gives. The swap
  statement \<open>termid, docid = docid, termid\<close> assigns to \<open>docid\<close>, so from the second
  entry on the first component is the previous entry's term id: both readers yield
  \<open>(7, 2.5), (1, 1.0)\<close>.
\<close>

theorem transposition_clobbers_docid:
  "MmReader1_pass interleaved_example False = ([[(7, 1075838976), (1, 1065353216)], []], None) \<and>
   MmReader2_pass interleaved_example False = ([[(7, 1075838976), (1, 1065353216)], []], None) \<and>
   MmReader1_pass interleaved_example True = ([[(1, 1075838976), (2, 1065353216)], []], None)"
  by (simp add: MmReader2_pass_eq_1 MmReader1_pass_example_False MmReader1_pass_example_True)

text \<open>
  Claim C2 (the columnar decode). The term ids and the weights are paired by position, but
  the reader built with \<open>transposed=False\<close> yields the same entries as the one built
  with \<open>transposed=True\<close>: for the record with sub-header id 7 it yields
  \<open>(1, 2.5), (2, 1.0)\<close>, where the claim requires the swap to have been applied.
\<close>

theorem columnar_ignores_transposed:
  "MmReaderArray_pass columnar_example False = ([[(1, 1075838976), (2, 1065353216)], []], None) \<and>
   MmReaderArray_pass columnar_example True = ([[(1, 1075838976), (2, 1065353216)], []], None)"
  by (simp add: MmReaderArray_pass_example)

text \<open>
  Claim C3 (round trip of the columnar writer and reader), as amended. For a corpus whose
  declared number of documents is the number of documents it yields, and whose
  statistics, lengths and term ids fit a C \<open>int\<close>, \<open>save_corpus\<close> completes and
  closes the file, and a pass of \<open>MmReaderArray\<close> over the file written, with either
  value of the flag, ends without an exception and yields one document for each
  document of the corpus, in order, with the same term ids in the same order and with
  each weight converted to a C \<open>float\<close>. When every weight of the corpus is the value
  of a float, the documents read back, as Python values, are the documents of the
  corpus.
\<close>

theorem save_then_iterate:
  assumes "storable c" and "corpus_num_docs c = int (length (corpus_docs c))"
  shows "snd (save_corpus c) = None \<and> closed (fst (save_corpus c)) \<and>
         MmReaderArray_pass (written (fst (save_corpus c))) tr =
           (map stored_doc (corpus_docs c), None) \<and>
         (float_weights c \<longrightarrow>
            map python_doc (fst (MmReaderArray_pass (written (fst (save_corpus c))) tr)) =
              corpus_docs c)"
proof -
  let ?recs = "columnar_records 0 (corpus_docs c)"
  let ?file = "bytes_i32 (corpus_num_docs c) @ bytes_i32 (corpus_num_terms c) @
    bytes_i32 (corpus_num_nnz c) @ ?recs"
  from assms(1) have h: "fits_i32 (corpus_num_docs c)" "fits_i32 (corpus_num_terms c)"
    "fits_i32 (corpus_num_nnz c)"
    and d: "corpus_docs c = [] \<or> 0 + length (corpus_docs c) \<le> 2147483648"
    "\<forall>doc \<in> set (corpus_docs c).
         length doc < 2147483648 \<and> (\<forall>(termid, value) \<in> set doc. fits_i32 termid)"
    by (simp_all add: storable_def)
  have s: "save_corpus c = (\<lparr>written = ?file, closed = True\<rparr>, None)"
    using save_corpus_ok [OF assms(1)] by simp
  have hd: "fromfile int32_of 3 ?file =
      Inr ([corpus_num_docs c, corpus_num_terms c, corpus_num_nnz c], ?recs)"
    using h by (rule fromfile_header)
  have "MmReaderArray_pass ?file tr = docs_loop_array (nat (corpus_num_docs c)) ?recs"
    by (simp add: MmReaderArray_pass_def MmReaderArray_init_def MmReaderArray_iter_def
        read_headers_array_def skip_headers_array_def hd)
  then have "MmReaderArray_pass ?file tr = docs_loop_array (length (corpus_docs c)) ?recs"
    by (simp add: assms(2))
  then have p: "MmReaderArray_pass ?file tr = (map stored_doc (corpus_docs c), None)"
    by (simp add: docs_loop_array_columnar [OF d])
  have "map python_doc (map stored_doc (corpus_docs c)) = corpus_docs c" if "float_weights c"
  proof -
    from that have "\<forall>doc \<in> set (corpus_docs c). python_doc (stored_doc doc) = doc"
      by (auto simp: float_weights_def intro: python_stored_doc)
    then show ?thesis by (simp add: map_idI)
  qed
  with p show ?thesis by (simp add: s)
qed

text \<open>The example scenario of the specification satisfies the hypotheses.\<close>

theorem save_then_iterate_witness:
  "storable corpus_example \<and>
   corpus_num_docs corpus_example = int (length (corpus_docs corpus_example)) \<and>
   float_weights corpus_example \<and>
   MmReaderArray_pass (written (fst (save_corpus corpus_example))) True =
     ([[(1, 1075838976)], [(0, 1065353216), (2, 1082130432)]], None) \<and>
   map python_doc (fst (MmReaderArray_pass (written (fst (save_corpus corpus_example))) True)) =
     [[(1, 4612811918334230528)], [(0, 4607182418800017408), (2, 4616189618054758400)]]"
proof -
  have n: "corpus_num_docs corpus_example = int (length (corpus_docs corpus_example))"
    by (simp add: corpus_example_def)
  have d: "corpus_docs corpus_example =
      [[(1, 4612811918334230528)], [(0, 4607182418800017408), (2, 4616189618054758400)]]"
    by (simp add: corpus_example_def)
  from save_then_iterate [OF storable_corpus_example n, of True]
    storable_corpus_example n float_weights_corpus_example
  show ?thesis
    by (simp add: d stored_doc_def c_float_examples python_doc_def py_float_examples)
qed

text \<open>
  As stated, the claim fails in two ways. When the header declares one document and two
  are supplied, the file written decodes to the first document only. And the weight
  0.1 of a corpus with consistent statistics is read back as the float nearest to it,
  0.100000001490116, whose pattern as a Python float is 4591870180174331904.
\<close>

theorem save_then_iterate_counterexample:
  "map python_doc (fst (MmReaderArray_pass (written (fst (save_corpus corpus_miscounted))) True))
     = [[(1, 4612811918334230528)]] \<and>
   corpus_docs corpus_miscounted =
     [[(1, 4612811918334230528)], [(0, 4607182418800017408), (2, 4616189618054758400)]] \<and>
   map python_doc (fst (MmReaderArray_pass (written (fst (save_corpus corpus_tenth))) True))
     = [[(1, 4591870180174331904)]] \<and>
   corpus_docs corpus_tenth = [[(1, 4591870180066957722)]]"
  by (simp add: save_corpus_miscounted save_corpus_tenth MmReaderArray_pass_eq eval_simps
      python_doc_def py_float_examples)
    (simp add: corpus_miscounted_def corpus_tenth_def)

text \<open>
  Claim C4 (count invariant). For a well-formed file whose header decodes to
  \<open>(nd, nt, nnz)\<close>, a full pass of each of the three readers, with either value of the
  flag, ends without an exception and has yielded exactly \<open>nd\<close> items. Well-formedness
  constrains the sizes only: the ids in the sub-headers and the entries are arbitrary.
\<close>

theorem count_invariant:
  assumes "well_formed f" and "read_headers f = Inr (nd, nt, nnz)"
  shows "snd (MmReader1_pass f tr) = None \<and> int (length (fst (MmReader1_pass f tr))) = nd \<and>
         snd (MmReader2_pass f tr) = None \<and> int (length (fst (MmReader2_pass f tr))) = nd \<and>
         snd (MmReaderArray_pass f tr) = None \<and> int (length (fst (MmReaderArray_pass f tr))) = nd"
proof -
  let ?n = "nat (int32_of (take 4 f))"
  from assms(1) have l: "12 \<le> length f" and p: "0 \<le> int32_of (take 4 f)"
    and w: "well_formed_records ?n (drop 12 f)"
    by (simp_all add: well_formed_def)
  from assms(2) l have nd: "nd = int32_of (take 4 f)" by (rule read_headers_num_docs)
  have 1: "MmReader1_pass f tr = (map (interleaved_doc tr) (records ?n (drop 12 f)), None)"
    using l by (simp add: MmReader1_pass_eq docs_loop1_well_formed [OF w])
  have 2: "MmReader2_pass f tr = (map (interleaved_doc tr) (records ?n (drop 12 f)), None)"
    using l by (simp add: MmReader2_pass_eq docs_loop2_eq docs_loop1_well_formed [OF w])
  have 3: "MmReaderArray_pass f tr = (map columnar_doc (records ?n (drop 12 f)), None)"
    using l by (simp add: MmReaderArray_pass_eq docs_loop_array_well_formed [OF w])
  show ?thesis using p by (simp add: 1 2 3 nd)
qed

text \<open>The example file is well-formed, and its sub-header ids are 7 and 9.\<close>

theorem count_invariant_witness:
  "well_formed interleaved_example \<and> read_headers interleaved_example = Inr (2, 3, 3) \<and>
   snd (MmReader1_pass interleaved_example False) = None \<and>
   int (length (fst (MmReader1_pass interleaved_example False))) = 2"
  using count_invariant [OF well_formed_interleaved_example read_headers_interleaved_example,
      of False]
    well_formed_interleaved_example read_headers_interleaved_example
  by simp

text \<open>
  Claim C5 (the per-entry and the bulk-read reader agree). On every file, well-formed or
  not, and for either value of the flag, the constructors of \<open>MmReader1\<close> and
  \<open>MmReader2\<close> return the same reader or the same exception, their iterations over the
  same reader yield the same documents and end the same way, and so do their passes.
\<close>

theorem readers_equivalent:
  "MmReader2_init f tr = MmReader1_init f tr \<and> MmReader2_iter self = MmReader1_iter self \<and>
   MmReader2_pass f tr = MmReader1_pass f tr"
  by (simp add: MmReader2_init_def MmReader1_init_def MmReader2_iter_def MmReader1_iter_def
      MmReader2_pass_def MmReader1_pass_def docs_loop2_eq split: sum.splits prod.splits)

text \<open>
  Claim C6 (truncation detection). Cut a well-formed file at a byte offset \<open>k\<close> before
  its end. A pass of each reader over the prefix ends with an exception: \<open>struct.error\<close>
  for the two struct readers; for the array reader \<open>EOFError\<close>, or \<open>ValueError\<close> when
  the cut falls inside a four-byte item. What it has yielded before are the documents of
  the records that lie wholly before the cut, exactly as the pass over the whole file
  yields them, and no other item: nothing is yielded for the record that spans the cut.
  That record exists when the cut is after the header.
\<close>

theorem truncation_detected:
  assumes "well_formed f" and "k < length f"
  shows "MmReader1_pass (take k f) tr =
           (take (complete_records f k) (fst (MmReader1_pass f tr)), Some StructError) \<and>
         MmReader2_pass (take k f) tr =
           (take (complete_records f k) (fst (MmReader2_pass f tr)), Some StructError) \<and>
         MmReaderArray_pass (take k f) tr =
           (take (complete_records f k) (fst (MmReaderArray_pass f tr)), Some (short_read k)) \<and>
         int (complete_records f k) \<le> int32_of (take 4 f) \<and>
         (12 \<le> k \<longrightarrow> int (complete_records f k) < int32_of (take 4 f))"
proof -
  let ?n = "nat (int32_of (take 4 f))"
  from assms(1) have l: "12 \<le> length f" and p: "0 \<le> int32_of (take 4 f)"
    and w: "well_formed_records ?n (drop 12 f)"
    by (simp_all add: well_formed_def)
  have full1: "MmReader1_pass f tr = (map (interleaved_doc tr) (records ?n (drop 12 f)), None)"
    using l by (simp add: MmReader1_pass_eq docs_loop1_well_formed [OF w])
  have full3: "MmReaderArray_pass f tr = (map columnar_doc (records ?n (drop 12 f)), None)"
    using l by (simp add: MmReaderArray_pass_eq docs_loop_array_well_formed [OF w])
  have eq2: "\<And>g. MmReader2_pass g tr = MmReader1_pass g tr"
    by (simp add: MmReader2_pass_eq MmReader1_pass_eq docs_loop2_eq)
  show ?thesis
  proof (cases "k < 12")
    case True
    with assms(2) have len: "length (take k f) = k" by simp
    with True assms(2) p show ?thesis
      unfolding eq2
      by (simp add: MmReader1_pass_eq [of "take k f"] MmReaderArray_pass_eq [of "take k f"]
          complete_records_def raise_def)
  next
    case False
    then have k12: "12 \<le> k" by simp
    have h: "take 4 (take k f) = take 4 f" using k12 by (simp add: min_def)
    have d: "drop 12 (take k f) = take (k - 12) (drop 12 f)" by (simp add: drop_take)
    have kl: "k - 12 < length (drop 12 f)" using assms(2) k12 by simp
    have len: "\<not> length (take k f) < 12" using assms(2) k12 by simp
    have sr: "short_read (k - 12) = short_read k"
      using k12 by (simp add: short_read_sub)
    have t1: "MmReader1_pass (take k f) tr = docs_loop1 tr ?n (take (k - 12) (drop 12 f))"
      unfolding MmReader1_pass_eq [of "take k f"] h d using len by simp
    have t3: "MmReaderArray_pass (take k f) tr = docs_loop_array ?n (take (k - 12) (drop 12 f))"
      unfolding MmReaderArray_pass_eq [of "take k f"] h d using len by simp
    have c: "complete_records f k = records_before ?n (k - 12) (drop 12 f)"
      using False by (simp add: complete_records_def)
    have "records_before ?n (k - 12) (drop 12 f) < ?n"
      using w kl by (rule records_before_less)
    with p have lt: "int (records_before ?n (k - 12) (drop 12 f)) < int32_of (take 4 f)"
      by linarith
    show ?thesis
      unfolding eq2 t1 t3 full1 full3 c
      using lt
      by (simp add: docs_loop1_truncated [OF w kl] docs_loop_array_truncated [OF w kl]
          take_map sr)
  qed
qed

text \<open>The example file cut at offset 30, inside the first record's second entry.\<close>

theorem truncation_detected_witness:
  "well_formed interleaved_example \<and> (30::nat) < length interleaved_example \<and>
   MmReader1_pass (take 30 interleaved_example) True = ([], Some StructError) \<and>
   MmReaderArray_pass (take 30 interleaved_example) True = ([], Some ValueError)"
proof -
  have k: "(30::nat) < length interleaved_example"
    by (simp add: interleaved_example_def)
  have c: "complete_records interleaved_example 30 = 0"
    by code_simp
  from truncation_detected [OF well_formed_interleaved_example k, of True]
    well_formed_interleaved_example k
  show ?thesis by (simp add: c short_read_def)
qed

text \<open>
  Claim C7 (the destination is closed on every exit path). \<open>save_corpus\<close> opens the
  destination without a \<open>with\<close> block or a \<open>finally\<close> clause, and \<open>f.close()\<close> is
  its last statement. When a term id does not fit a C \<open>int\<close>, \<open>termids.append\<close>
  raises \<open>OverflowError\<close> after the header and the sub-header have been written, and
  the function is left with the destination still open.
\<close>

theorem save_corpus_leaves_open:
  "save_corpus corpus_overflowing =
     (\<lparr>written = [1,0,0,0, 1,0,0,0, 1,0,0,0, 0,0,0,0, 1,0,0,0], closed = False\<rparr>,
      Some OverflowError)"
  by (simp add: save_corpus_def corpus_overflowing_def array_i_def fits_i32_def tofile_i_def
      f_write_def bytes_i32_def bytes4_def)

text \<open>
  Claim C8 (a wrong declared number of documents), as amended. \<open>save_corpus\<close> does not
  compare the declared number of documents with the number supplied: it completes
  without an exception exactly when every statistic, position, length and term id fits a
  C \<open>int\<close>, and \<open>OverflowError\<close> is the only exception it raises otherwise.
\<close>

theorem save_corpus_no_count_check:
  "snd (save_corpus c) = (if storable c then None else Some OverflowError)"
  by (simp add: save_corpus_ok save_corpus_error)

text \<open>A corpus that declares one document and supplies two is stored without error.\<close>

theorem save_corpus_no_count_check_witness:
  "corpus_num_docs corpus_miscounted \<noteq> int (length (corpus_docs corpus_miscounted)) \<and>
   storable corpus_miscounted \<and> snd (save_corpus corpus_miscounted) = None"
  using save_corpus_no_count_check [of corpus_miscounted] storable_corpus_miscounted
  by (simp add: corpus_miscounted_def)

text \<open>
  As stated, the claim fails: with one document declared and two supplied,
  \<open>save_corpus\<close> completes and reports nothing.
\<close>

theorem save_corpus_miscount_counterexample:
  "corpus_num_docs corpus_miscounted = 1 \<and> length (corpus_docs corpus_miscounted) = 2 \<and>
   snd (save_corpus corpus_miscounted) = None"
  by (simp add: save_corpus_miscounted) (simp add: corpus_miscounted_def)

text \<open>
  Claim C9 (each item is a full document record). The docstring of each \<open>__iter__\<close>
  announces items \<open>(int, list of (int, number))\<close>, the document id and the document; the
  statement executed is \<open>yield document\<close>. For the example's records, with sub-header
  ids 7 and 9, each reader yields the two entry lists and the ids 7 and 9 are not part of
  the items.
\<close>

theorem items_are_entry_lists:
  "MmReader1_pass interleaved_example True = ([[(1, 1075838976), (2, 1065353216)], []], None) \<and>
   MmReader2_pass interleaved_example True = ([[(1, 1075838976), (2, 1065353216)], []], None) \<and>
   MmReaderArray_pass columnar_example True = ([[(1, 1075838976), (2, 1065353216)], []], None)"
  by (simp add: MmReader2_pass_eq_1 MmReader1_pass_example_True MmReaderArray_pass_example)

text \<open>
  Claim C10 (documents without entries). At any point of a pass where at least one more
  record is to be decoded and the stream starts with a sub-header whose length field is
  0, each reader yields the empty document and goes on with the remaining records from
  the byte right after the 8-byte sub-header: no payload byte is consumed and the pass
  is not ended. So when \<open>i\<close> well-formed records precede the sub-header and \<open>n\<close>
  follow it, the pass yields the documents of the \<open>i\<close> records, then the empty
  document, then the documents of the \<open>n\<close> records, each decoded from its own bytes,
  and ends without an exception.
\<close>

theorem empty_document:
  assumes "8 \<le> length f" and "int32_of (take 4 (drop 4 f)) = 0"
  shows "docs_loop1 tr (Suc n) f = yield [] (docs_loop1 tr n (drop 8 f)) \<and>
         docs_loop2 tr (Suc n) f = yield [] (docs_loop2 tr n (drop 8 f)) \<and>
         docs_loop_array (Suc n) f = yield [] (docs_loop_array n (drop 8 f)) \<and>
         (well_formed_records i pre \<and> well_formed_records n (drop 8 f) \<longrightarrow>
            docs_loop1 tr (i + Suc n) (pre @ f) =
              (map (interleaved_doc tr) (records i pre) @
                 [] # map (interleaved_doc tr) (records n (drop 8 f)), None) \<and>
            docs_loop2 tr (i + Suc n) (pre @ f) =
              (map (interleaved_doc tr) (records i pre) @
                 [] # map (interleaved_doc tr) (records n (drop 8 f)), None) \<and>
            docs_loop_array (i + Suc n) (pre @ f) =
              (map columnar_doc (records i pre) @
                 [] # map columnar_doc (records n (drop 8 f)), None))"
proof -
  have r: "record_size f = 8" using assms(2) by (simp add: record_size_def)
  have e: "interleaved_doc tr (take 8 f) = []"
    using assms by (simp add: interleaved_doc_def drop_take)
  have c: "columnar_doc (take 8 f) = []"
    using assms by (simp add: columnar_doc_def drop_take)
  have 1: "docs_loop1 tr (Suc n) f = yield [] (docs_loop1 tr n (drop 8 f))"
    using docs_loop1_step [of f tr n] assms(1) by (simp add: r e)
  have 3: "docs_loop_array (Suc n) f = yield [] (docs_loop_array n (drop 8 f))"
    using docs_loop_array_step [of f n] assms by (simp add: r c)
  have 4: "docs_loop1 tr (i + Suc n) (pre @ f) =
      (map (interleaved_doc tr) (records i pre) @
         [] # map (interleaved_doc tr) (records n (drop 8 f)), None)"
    if "well_formed_records i pre" and "well_formed_records n (drop 8 f)"
    by (simp only: docs_loop1_prefix [OF that(1)] 1 docs_loop1_well_formed [OF that(2)])
      (simp add: yield_def)
  have 6: "docs_loop_array (i + Suc n) (pre @ f) =
      (map columnar_doc (records i pre) @ [] # map columnar_doc (records n (drop 8 f)), None)"
    if "well_formed_records i pre" and "well_formed_records n (drop 8 f)"
    by (simp only: docs_loop_array_prefix [OF that(1)] 3 docs_loop_array_well_formed [OF that(2)])
      (simp add: yield_def)
  from 1 3 4 6 show ?thesis by (simp add: docs_loop2_eq)
qed

text \<open>
  A record with one entry, a record without entries and a record with one entry decode
  to the three documents, the empty one in the middle.
\<close>

theorem empty_document_witness:
  "8 \<le> length empty_then_one_entry \<and>
   int32_of (take 4 (drop 4 empty_then_one_entry)) = 0 \<and>
   well_formed_records (Suc 0) one_entry_record \<and>
   well_formed_records (Suc 0) (drop 8 empty_then_one_entry) \<and>
   docs_loop1 True (Suc (Suc (Suc 0))) (one_entry_record @ empty_then_one_entry) =
     ([[(1, 1075838976)], [], [(2, 1065353216)]], None) \<and>
   docs_loop2 True (Suc (Suc (Suc 0))) (one_entry_record @ empty_then_one_entry) =
     ([[(1, 1075838976)], [], [(2, 1065353216)]], None) \<and>
   docs_loop_array (Suc (Suc (Suc 0))) (one_entry_record @ empty_then_one_entry) =
     ([[(1, 1075838976)], [], [(2, 1065353216)]], None)"
proof -
  have a: "8 \<le> length empty_then_one_entry"
    by (simp add: empty_then_one_entry_def)
  have b: "int32_of (take 4 (drop 4 empty_then_one_entry)) = 0"
    by (simp add: empty_then_one_entry_def int32_of_def)
  have w1: "well_formed_records (Suc 0) one_entry_record"
    by (simp add: one_entry_record_def record_size_def int32_of_def)
  have w2: "well_formed_records (Suc 0) (drop 8 empty_then_one_entry)"
    by (simp add: empty_then_one_entry_def record_size_def int32_of_def)
  have d1: "map (interleaved_doc True) (records (Suc 0) one_entry_record) = [[(1, 1075838976)]]"
    "map columnar_doc (records (Suc 0) one_entry_record) = [[(1, 1075838976)]]"
    by (simp_all add: one_entry_record_def record_size_def interleaved_doc_def columnar_doc_def
        int32_of_def float32_of_def)
  have d2: "map (interleaved_doc True) (records (Suc 0) (drop 8 empty_then_one_entry))
      = [[(2, 1065353216)]]"
    "map columnar_doc (records (Suc 0) (drop 8 empty_then_one_entry)) = [[(2, 1065353216)]]"
    by (simp_all add: empty_then_one_entry_def record_size_def interleaved_doc_def
        columnar_doc_def int32_of_def float32_of_def)
  from empty_document [OF a b, of True "Suc 0" "Suc 0" one_entry_record] a b w1 w2
  show ?thesis
    by (simp add: d1 d2
        del: docs_loop1.simps docs_loop2.simps docs_loop_array.simps records.simps)
qed

end
